theory Spec2Isabelle
  imports Main "HOL-Library.Char_ord" "HOL-Library.List_Lexorder" "HOL-Library.Product_Lexorder"
    "HOL-Library.Multiset"
begin

section \<open>Python values that reach the audit log\<close>

text \<open>
  The embedding follows \<^verbatim>\<open>src/audit_logger.py\<close>, class \<^verbatim>\<open>AuditLogger\<close>.
  Strings are lists of code points below 256, without the code point 0, which the database
  refuses. The values passed as \<^verbatim>\<open>old_val\<close> and \<^verbatim>\<open>new_val\<close> are JSON-serialisable
  Python values without floats; \<open>JNull\<close> is Python's \<^verbatim>\<open>None\<close>. A dict has
  strings as keys and is an association list with distinct keys.
\<close>

datatype json =
    JNull
  | JBool bool
  | JInt int
  | JStr string
  | JList "json list"
  | JObj "(string \<times> json) list"

text \<open>Truthiness, as \<^verbatim>\<open>if old_val\<close> tests it.\<close>

fun truthy :: "json \<Rightarrow> bool" where
  "truthy JNull = False"
| "truthy (JBool b) = b"
| "truthy (JInt i) = (i \<noteq> 0)"
| "truthy (JStr s) = (s \<noteq> [])"
| "truthy (JList xs) = (xs \<noteq> [])"
| "truthy (JObj kvs) = (kvs \<noteq> [])"

subsection \<open>\<^verbatim>\<open>json.dumps(data, sort_keys=True)\<close>\<close>

definition digit_char :: "nat \<Rightarrow> char" where
  "digit_char n = ''0123456789'' ! (n mod 10)"

fun dec_nat :: "nat \<Rightarrow> string" where
  "dec_nat n = (if n < 10 then [digit_char n] else dec_nat (n div 10) @ [digit_char n])"

declare dec_nat.simps [simp del]

definition dec_int :: "int \<Rightarrow> string" where
  "dec_int i = (if i < 0 then CHR ''-'' # dec_nat (nat (- i)) else dec_nat (nat i))"

definition hex_char :: "nat \<Rightarrow> char" where
  "hex_char n = ''0123456789abcdef'' ! (n mod 16)"

text \<open>
  The encoder of \<^verbatim>\<open>ensure_ascii=True\<close>: the quote and the backslash are escaped, the
  five short escapes are used, and every other code point outside space..tilde becomes
  \<^verbatim>\<open>\u00XX\<close>.
\<close>

definition escape_char :: "char \<Rightarrow> string" where
  "escape_char c =
     (let n = (of_char c :: nat) in
      if n = 34 then [CHR 0x5C, CHR 0x22]
      else if n = 92 then [CHR 0x5C, CHR 0x5C]
      else if n = 10 then [CHR 0x5C, CHR ''n'']
      else if n = 13 then [CHR 0x5C, CHR ''r'']
      else if n = 9 then [CHR 0x5C, CHR ''t'']
      else if n = 8 then [CHR 0x5C, CHR ''b'']
      else if n = 12 then [CHR 0x5C, CHR ''f'']
      else if n < 32 \<or> 126 < n
        then [CHR 0x5C, CHR ''u'', CHR ''0'', CHR ''0'', hex_char (n div 16), hex_char n]
      else [c])"

definition encode_str :: "string \<Rightarrow> string" where
  "encode_str s = CHR 0x22 # concat (map escape_char s) @ [CHR 0x22]"

fun join :: "string \<Rightarrow> string list \<Rightarrow> string" where
  "join sep [] = []"
| "join sep [x] = x"
| "join sep (x # y # ys) = x @ sep @ join sep (y # ys)"

text \<open>
  Each member is rendered first, then the rendered members are put in key order: the text is
  the one \<^verbatim>\<open>sort_keys=True\<close> gives, and the recursion stays structural.
\<close>

fun json_dumps :: "json \<Rightarrow> string" where
  "json_dumps JNull = ''null''"
| "json_dumps (JBool b) = (if b then ''true'' else ''false'')"
| "json_dumps (JInt i) = dec_int i"
| "json_dumps (JStr s) = encode_str s"
| "json_dumps (JList xs) = ''['' @ join '', '' (map json_dumps xs) @ '']''"
| "json_dumps (JObj kvs) =
     ''{'' @ join '', '' (map snd (sort_key fst
        (map (\<lambda>(k, v). (k, encode_str k @ '': '' @ json_dumps v)) kvs))) @ ''}''"

subsection \<open>\<^verbatim>\<open>datetime.isoformat()\<close>\<close>

text \<open>
  \<^verbatim>\<open>datetime.utcnow()\<close> is a naive datetime. The column \<^verbatim>\<open>created_at\<close> is
  \<^verbatim>\<open>TIMESTAMP WITH TIME ZONE\<close>, which the driver returns as an aware datetime: the
  civil fields in the session's time zone and the offset from UTC, in minutes. The fields
  are in their calendar ranges, so each is printed with its fixed number of digits.
\<close>

record naive_datetime =
  year :: nat
  month :: nat
  day :: nat
  hour :: nat
  minute :: nat
  second :: nat
  microsecond :: nat

record aware_datetime = naive_datetime +
  utcoffset :: int

definition pad2 :: "nat \<Rightarrow> string" where
  "pad2 n = [digit_char (n div 10), digit_char n]"

definition pad4 :: "nat \<Rightarrow> string" where
  "pad4 n = pad2 (n div 100) @ pad2 n"

definition pad6 :: "nat \<Rightarrow> string" where
  "pad6 n = pad2 (n div 10000) @ pad4 n"

definition isoformat :: "'a naive_datetime_scheme \<Rightarrow> string" where
  "isoformat t =
     pad4 (year t) @ ''-'' @ pad2 (month t) @ ''-'' @ pad2 (day t) @ ''T'' @
     pad2 (hour t) @ '':'' @ pad2 (minute t) @ '':'' @ pad2 (second t) @
     (if microsecond t = 0 then [] else ''.'' @ pad6 (microsecond t))"

definition isoformat_aware :: "aware_datetime \<Rightarrow> string" where
  "isoformat_aware t =
     isoformat t @ (if utcoffset t < 0 then ''-'' else ''+'') @
     pad2 (nat \<bar>utcoffset t\<bar> div 60) @ '':'' @ pad2 (nat \<bar>utcoffset t\<bar> mod 60)"

text \<open>
  The database compares two \<^verbatim>\<open>created_at\<close> values as instants: microseconds since
  1970-01-01T00:00:00 UTC, from the days of the proleptic Gregorian calendar.
\<close>

definition days_from_civil :: "int \<Rightarrow> int \<Rightarrow> int \<Rightarrow> int" where
  "days_from_civil y m d =
     (let y' = (if m \<le> 2 then y - 1 else y);
          era = y' div 400;
          yoe = y' - era * 400;
          doy = (153 * ((m + 9) mod 12) + 2) div 5 + d - 1;
          doe = yoe * 365 + yoe div 4 - yoe div 100 + doy
      in era * 146097 + doe - 719468)"

definition instant :: "aware_datetime \<Rightarrow> int" where
  "instant t =
     (((days_from_civil (int (year t)) (int (month t)) (int (day t)) * 24 + int (hour t)) * 60
         + int (minute t) - utcoffset t) * 60 + int (second t)) * 1000000 + int (microsecond t)"

section \<open>The table \<^verbatim>\<open>audit_logs\<close>\<close>

text \<open>
  A row has the columns of \<^verbatim>\<open>_init_db\<close>; a nullable column is an option, \<open>None\<close>
  being SQL NULL. The column \<^verbatim>\<open>id\<close> is the field \<open>log_id\<close>. A \<open>uuid\<close> is the
  canonical text of a UUID, which is what \<^verbatim>\<open>str\<close> gives and what the column returns.
  The table is the list of its committed rows, in the order of their insertion.
\<close>

type_synonym uuid = string

record audit_row =
  log_id :: uuid
  actor_id :: uuid
  action :: string
  resource_type :: "string option"
  resource_id :: uuid
  old_values :: "json option"
  new_values :: "json option"
  previous_hash :: "string option"
  hash :: string
  created_at :: "aware_datetime option"

type_synonym table = "audit_row list"

text \<open>
  \<^verbatim>\<open>ORDER BY created_at ASC\<close> puts NULL last, \<^verbatim>\<open>DESC\<close> is the reverse order and
  puts NULL first. For \<^verbatim>\<open>ASC\<close> the model takes rows with equal \<^verbatim>\<open>created_at\<close> in
  insertion order.
\<close>

definition created_key :: "aware_datetime option \<Rightarrow> nat \<times> int" where
  "created_key c = (case c of None \<Rightarrow> (1, 0) | Some t \<Rightarrow> (0, instant t))"

definition order_by_created_at_asc :: "table \<Rightarrow> audit_row list" where
  "order_by_created_at_asc tbl = sort_key (\<lambda>r. created_key (created_at r)) tbl"

text \<open>
  For \<^verbatim>\<open>DESC\<close> the order of rows with equal \<^verbatim>\<open>created_at\<close> is not fixed here: it
  follows from \<open>scan\<close>, the order in which the database happens to read the rows for
  the query, and every descending order of the rows comes from some \<open>scan\<close>.
\<close>

definition order_by_created_at_desc ::
  "(audit_row list \<Rightarrow> audit_row list) \<Rightarrow> audit_row list \<Rightarrow> audit_row list" where
  "order_by_created_at_desc scan rows = rev (order_by_created_at_asc (scan rows))"

section \<open>The hash chain\<close>

text \<open>
  \<^verbatim>\<open>hmac\<close> and \<^verbatim>\<open>hashlib\<close> are libraries: the keyed hash is the
  parameter \<open>hm\<close>, with \<open>hm key message\<close> for
  \<^verbatim>\<open>hmac.new(key.encode(), message.encode(), hashlib.sha256).hexdigest()\<close>.
  \<open>py_str\<close> is how an f-string prints a text that may be \<^verbatim>\<open>None\<close>.
\<close>

type_synonym keyed_hash = "string \<Rightarrow> string \<Rightarrow> string"

definition py_str :: "string option \<Rightarrow> string" where
  "py_str x = (case x of None \<Rightarrow> ''None'' | Some s \<Rightarrow> s)"

definition compute_hash :: "keyed_hash \<Rightarrow> string \<Rightarrow> string option \<Rightarrow> json \<Rightarrow> string" where
  "compute_hash hm secret_key prev data =
     hm secret_key (py_str prev @ '':'' @ json_dumps data)"

text \<open>The dict \<^verbatim>\<open>log_data\<close>, built the same way by \<^verbatim>\<open>log_change\<close> and by the verifier.\<close>

definition make_log_data ::
  "string \<Rightarrow> string \<Rightarrow> string \<Rightarrow> string option \<Rightarrow> json \<Rightarrow> json \<Rightarrow> json" where
  "make_log_data actor act resource timestamp old new =
     JObj [(''actor'', JStr actor),
           (''action'', JStr act),
           (''resource'', JStr resource),
           (''timestamp'', (case timestamp of None \<Rightarrow> JNull | Some s \<Rightarrow> JStr s)),
           (''old'', old),
           (''new'', new)]"

subsection \<open>\<^verbatim>\<open>log_change\<close>\<close>

text \<open>
  What one call takes from outside: the clock of the Python process, the database's
  \<^verbatim>\<open>CURRENT_TIMESTAMP\<close> (the default of \<^verbatim>\<open>created_at\<close>, which the INSERT does not
  set), the value of \<^verbatim>\<open>gen_random_uuid()\<close>, and the statement at which the connection
  fails, if it does. At the commit it can fail in two ways: before the server has committed
  (\<open>AtCommit\<close>), or after the server has committed and before its answer has arrived
  (\<open>AfterCommit\<close>); in both \<^verbatim>\<open>conn.commit()\<close> raises.
\<close>

datatype stage = AtSelect | AtInsert | AtCommit | AfterCommit

datatype error =
    OperationalError stage
  | StringDataRightTruncation
  | UniqueViolation
  | InvalidRowCountInLimitClause
  | NumericValueOutOfRange

record env =
  utcnow :: naive_datetime
  current_timestamp :: aware_datetime
  gen_random_uuid :: uuid
  fault :: "stage option"

text \<open>
  \<^verbatim>\<open>SELECT hash FROM audit_logs ORDER BY created_at DESC LIMIT 1\<close>, then \<^verbatim>\<open>fetchone\<close>.
  For this query the rows are read in insertion order: of the rows with the greatest
  \<^verbatim>\<open>created_at\<close>, the one inserted last is the tip.
\<close>

definition select_latest_hash :: "table \<Rightarrow> string option" where
  "select_latest_hash tbl =
     (case order_by_created_at_desc (\<lambda>rows. rows) tbl of
        [] \<Rightarrow> None
      | r # _ \<Rightarrow> Some (hash r))"

definition read_tip :: "env \<Rightarrow> table \<Rightarrow> error + string" where
  "read_tip e tbl =
     (if fault e = Some AtSelect then Inl (OperationalError AtSelect)
      else (case select_latest_hash tbl of None \<Rightarrow> Inr ''genesis'' | Some h \<Rightarrow> Inr h))"

text \<open>
  The INSERT with the constraints of the schema: \<^verbatim>\<open>VARCHAR(50)\<close> on \<^verbatim>\<open>action\<close> and
  \<^verbatim>\<open>resource_type\<close>, the primary key, and \<^verbatim>\<open>UNIQUE\<close> on \<^verbatim>\<open>hash\<close>. A text of
  more than 50 characters is an error unless the characters after the 50th are all spaces;
  it is then stored cut to 50 characters.
\<close>

definition fits :: "nat \<Rightarrow> string \<Rightarrow> bool" where
  "fits n s = list_all (\<lambda>c. c = CHR '' '') (drop n s)"

definition insert_row :: "audit_row \<Rightarrow> table \<Rightarrow> error + table" where
  "insert_row r tbl =
     (if fits 50 (action r) \<and> (case resource_type r of None \<Rightarrow> True | Some s \<Rightarrow> fits 50 s)
      then (if log_id r \<in> set (map log_id tbl) \<or> hash r \<in> set (map hash tbl)
            then Inl UniqueViolation
            else Inr (tbl @ [r\<lparr>action := take 50 (action r),
                                resource_type := map_option (take 50) (resource_type r)\<rparr>]))
      else Inl StringDataRightTruncation)"

definition json_column :: "json \<Rightarrow> json option" where
  "json_column v = (if truthy v then Some v else None)"

text \<open>
  A connection in its transaction: \<open>server\<close> is the table as committed, which every
  reader sees; \<open>view\<close> is the table as the transaction sees it, with what it has
  written and not yet committed. \<^verbatim>\<open>conn.commit()\<close> makes the view the committed table,
  unless the connection fails before the server commits; \<^verbatim>\<open>conn.rollback()\<close> drops
  what is not committed.
\<close>

record transaction =
  server :: table
  view :: table

definition execute_insert :: "audit_row \<Rightarrow> transaction \<Rightarrow> error + transaction" where
  "execute_insert r tx =
     (case insert_row r (view tx) of Inl err \<Rightarrow> Inl err | Inr v \<Rightarrow> Inr (tx\<lparr>view := v\<rparr>))"

definition commit :: "env \<Rightarrow> transaction \<Rightarrow> error option \<times> transaction" where
  "commit e tx =
     (if fault e = Some AtCommit then (Some (OperationalError AtCommit), tx)
      else if fault e = Some AfterCommit
        then (Some (OperationalError AfterCommit), tx\<lparr>server := view tx\<rparr>)
      else (None, tx\<lparr>server := view tx\<rparr>))"

definition rollback :: "transaction \<Rightarrow> transaction" where
  "rollback tx = tx\<lparr>view := server tx\<rparr>"

text \<open>
  The statements of the \<^verbatim>\<open>try\<close> block after the tip has been read: the hash over
  \<^verbatim>\<open>log_data\<close>, the INSERT and the commit. The result is the new id, or the exception
  raised, and the connection as the statements leave it.
\<close>

definition append_entry ::
  "keyed_hash \<Rightarrow> string \<Rightarrow> env \<Rightarrow> uuid \<Rightarrow> string \<Rightarrow> string \<Rightarrow> uuid \<Rightarrow> json \<Rightarrow> json \<Rightarrow>
   string \<Rightarrow> transaction \<Rightarrow> (error + uuid) \<times> transaction" where
  "append_entry hm secret_key e actor act rtype rid old_val new_val prev tx =
     (let log_data = make_log_data actor act (rtype @ '':'' @ rid)
                       (Some (isoformat (utcnow e))) old_val new_val;
          current_hash = compute_hash hm secret_key (Some prev) log_data
      in if fault e = Some AtInsert then (Inl (OperationalError AtInsert), tx)
         else (case execute_insert
                 \<lparr>log_id = gen_random_uuid e, actor_id = actor, action = act,
                  resource_type = Some rtype, resource_id = rid,
                  old_values = json_column old_val, new_values = json_column new_val,
                  previous_hash = Some prev, hash = current_hash,
                  created_at = Some (current_timestamp e)\<rparr> tx of
                 Inl err \<Rightarrow> (Inl err, tx)
               | Inr tx' \<Rightarrow>
                   (case commit e tx' of
                      (Some err, tx'') \<Rightarrow> (Inl err, tx'')
                    | (None, tx'') \<Rightarrow> (Inr (gen_random_uuid e), tx''))))"

text \<open>
  The \<^verbatim>\<open>except\<close> clause: an exception is caught, \<^verbatim>\<open>conn.rollback()\<close> is called, and
  the exception is raised again.
\<close>

definition except_rollback :: "(error + uuid) \<times> transaction \<Rightarrow> (error + uuid) \<times> transaction" where
  "except_rollback outcome =
     (case outcome of
        (Inl err, tx) \<Rightarrow> (Inl err, rollback tx)
      | (Inr new_id, tx) \<Rightarrow> (Inr new_id, tx))"

text \<open>
  The whole call, on a connection whose transaction starts at the table as committed:
  \<open>log_change_conn\<close> gives the result and the connection as the call leaves it,
  \<open>log_change\<close> the result and the table as committed, which is what readers see.
\<close>

definition log_change_conn ::
  "keyed_hash \<Rightarrow> string \<Rightarrow> env \<Rightarrow> uuid \<Rightarrow> string \<Rightarrow> string \<Rightarrow> uuid \<Rightarrow> json \<Rightarrow> json \<Rightarrow>
   table \<Rightarrow> (error + uuid) \<times> transaction" where
  "log_change_conn hm secret_key e actor act rtype rid old_val new_val tbl =
     (case read_tip e tbl of
        Inl err \<Rightarrow> except_rollback (Inl err, \<lparr>server = tbl, view = tbl\<rparr>)
      | Inr prev \<Rightarrow>
          except_rollback
            (append_entry hm secret_key e actor act rtype rid old_val new_val prev
               \<lparr>server = tbl, view = tbl\<rparr>))"

definition log_change ::
  "keyed_hash \<Rightarrow> string \<Rightarrow> env \<Rightarrow> uuid \<Rightarrow> string \<Rightarrow> string \<Rightarrow> uuid \<Rightarrow> json \<Rightarrow> json \<Rightarrow>
   table \<Rightarrow> (error + uuid) \<times> table" where
  "log_change hm secret_key e actor act rtype rid old_val new_val tbl =
     (case log_change_conn hm secret_key e actor act rtype rid old_val new_val tbl of
        (res, tx) \<Rightarrow> (res, server tx))"

subsection \<open>\<^verbatim>\<open>verify_chain_integrity\<close>\<close>

record broken_link =
  link_id :: uuid
  expected :: string
  found :: string

definition column_value :: "json option \<Rightarrow> json" where
  "column_value c = (case c of None \<Rightarrow> JNull | Some v \<Rightarrow> v)"

definition row_log_data :: "audit_row \<Rightarrow> json" where
  "row_log_data r =
     make_log_data (actor_id r) (action r) (py_str (resource_type r) @ '':'' @ resource_id r)
       (map_option isoformat_aware (created_at r))
       (column_value (old_values r)) (column_value (new_values r))"

text \<open>
  The loop over the fetched rows, with its two variables: the list \<^verbatim>\<open>broken_links\<close> and
  the running \<^verbatim>\<open>previous_hash\<close>. The hash is recomputed from the row's own column
  \<^verbatim>\<open>prev_hash\<close>.
\<close>

fun verify_loop ::
  "keyed_hash \<Rightarrow> string \<Rightarrow> audit_row list \<Rightarrow> broken_link list \<Rightarrow> string \<Rightarrow>
   broken_link list \<times> string" where
  "verify_loop hm secret_key [] broken_links running = (broken_links, running)"
| "verify_loop hm secret_key (r # logs) broken_links running =
     (let expected_hash = compute_hash hm secret_key (previous_hash r) (row_log_data r)
      in verify_loop hm secret_key logs
           (if expected_hash \<noteq> hash r
              then broken_links @ [\<lparr>link_id = log_id r, expected = expected_hash, found = hash r\<rparr>]
              else broken_links)
           (hash r))"

definition verify_chain_integrity :: "keyed_hash \<Rightarrow> string \<Rightarrow> table \<Rightarrow> bool \<times> broken_link list" where
  "verify_chain_integrity hm secret_key tbl =
     (let logs = order_by_created_at_asc tbl
      in if logs = [] then (True, [])
         else (let broken_links = fst (verify_loop hm secret_key logs [] ''genesis'')
               in (length broken_links = 0, broken_links)))"

subsection \<open>\<^verbatim>\<open>get_resource_history\<close>\<close>




section \<open>Notions used to state the properties\<close>

text \<open>The text that \<^verbatim>\<open>_compute_hash\<close> gives to the keyed hash.\<close>

definition message :: "string option \<Rightarrow> json \<Rightarrow> string" where
  "message prev data = py_str prev @ '':'' @ json_dumps data"

text \<open>What the verifier recomputes for one row, and the entry it appends when the row fails.\<close>

definition row_message :: "audit_row \<Rightarrow> string" where
  "row_message r = message (previous_hash r) (row_log_data r)"

definition expected_hash_of :: "keyed_hash \<Rightarrow> string \<Rightarrow> audit_row \<Rightarrow> string" where
  "expected_hash_of hm secret_key r = compute_hash hm secret_key (previous_hash r) (row_log_data r)"

definition row_broken :: "keyed_hash \<Rightarrow> string \<Rightarrow> audit_row \<Rightarrow> bool" where
  "row_broken hm secret_key r = (expected_hash_of hm secret_key r \<noteq> hash r)"

definition break_of :: "keyed_hash \<Rightarrow> string \<Rightarrow> audit_row \<Rightarrow> broken_link" where
  "break_of hm secret_key r =
     \<lparr>link_id = log_id r, expected = expected_hash_of hm secret_key r, found = hash r\<rparr>"

text \<open>
  The keyed hash tells two texts apart: it has no collision on them. Nothing more is ever
  asked of \<open>hm\<close>.
\<close>

definition separates :: "keyed_hash \<Rightarrow> string \<Rightarrow> string \<Rightarrow> string \<Rightarrow> bool" where
  "separates hm secret_key m m' = (m \<noteq> m' \<longrightarrow> hm secret_key m \<noteq> hm secret_key m')"

text \<open>
  A keyed hash without collisions, for the closed instances: the key, a bar and the text.
\<close>

definition tag_hash :: keyed_hash where
  "tag_hash key msg = key @ ''|'' @ msg"

text \<open>
  Chain linking: every row but the first of the chain order carries, as
  \<^verbatim>\<open>previous_hash\<close>, the \<^verbatim>\<open>hash\<close> of the row before it.
\<close>

fun linked_from :: "string option \<Rightarrow> audit_row list \<Rightarrow> bool" where
  "linked_from p [] = True"
| "linked_from p (r # rs) = (previous_hash r = p \<and> linked_from (Some (hash r)) rs)"




subsection \<open>The verifier as the specification words it\<close>

text \<open>
  Section 4.4 of the specification: the expected link of an entry is the keyed hash of the
  running link and the entry, and the running link then becomes the entry's stored link.
\<close>

fun spec_verify_loop ::
  "keyed_hash \<Rightarrow> string \<Rightarrow> audit_row list \<Rightarrow> broken_link list \<Rightarrow> string \<Rightarrow> broken_link list" where
  "spec_verify_loop hm secret_key [] breaks running_link = breaks"
| "spec_verify_loop hm secret_key (r # logs) breaks running_link =
     (let expected_link = compute_hash hm secret_key (Some running_link) (row_log_data r)
      in spec_verify_loop hm secret_key logs
           (if expected_link \<noteq> hash r
              then breaks @ [\<lparr>link_id = log_id r, expected = expected_link, found = hash r\<rparr>]
              else breaks)
           (hash r))"

definition spec_verify :: "keyed_hash \<Rightarrow> string \<Rightarrow> table \<Rightarrow> bool \<times> broken_link list" where
  "spec_verify hm secret_key tbl =
     (let breaks = spec_verify_loop hm secret_key (order_by_created_at_asc tbl) [] ''genesis''
      in (breaks = [], breaks))"

subsection \<open>Two calls that read the same tip\<close>

text \<open>
  The arguments of one call of \<^verbatim>\<open>log_change\<close>, and the part of the call that follows
  the SELECT: \<open>finish_call\<close> is \<open>append_entry\<close> with the \<^verbatim>\<open>except\<close> clause of
  \<open>log_change\<close>, on the table as committed when the INSERT runs. Each call has its own
  connection and transaction. In \<open>same_tip_calls\<close> both calls run their SELECT on the
  table as it is, before either runs its INSERT; then the first inserts and commits, then
  the second.
\<close>

record change =
  ch_actor :: uuid
  ch_action :: string
  ch_rtype :: string
  ch_rid :: uuid
  ch_old :: json
  ch_new :: json

definition call :: "keyed_hash \<Rightarrow> string \<Rightarrow> env \<Rightarrow> change \<Rightarrow> table \<Rightarrow> (error + uuid) \<times> table" where
  "call hm secret_key e c tbl =
     log_change hm secret_key e (ch_actor c) (ch_action c) (ch_rtype c) (ch_rid c)
       (ch_old c) (ch_new c) tbl"



section \<open>Worked instances\<close>

text \<open>
  The scenario of section 8 of the specification, with the key and the identifiers of the
  example at the end of the source file: entry A creates an invoice, entry B pays it, and a
  third entry C voids it. The clocks of the process and of the database are a few
  microseconds apart.
\<close>

definition demo_key :: string where
  "demo_key = ''development-key-change-in-production''"

definition u1 :: uuid where
  "u1 = ''123e4567-e89b-12d3-a456-426614174000''"

definition inv1 :: uuid where
  "inv1 = ''987fcdeb-51a2-43d7-9b56-243678901234''"

definition at_time :: "nat \<Rightarrow> nat \<Rightarrow> naive_datetime" where
  "at_time s us =
     \<lparr>year = 2024, month = 5, day = 17, hour = 9, minute = 30, second = s, microsecond = us\<rparr>"

definition db_time :: "nat \<Rightarrow> nat \<Rightarrow> aware_datetime" where
  "db_time s us =
     \<lparr>year = 2024, month = 5, day = 17, hour = 9, minute = 30, second = s, microsecond = us,
      utcoffset = 0\<rparr>"

definition env_A :: env where
  "env_A = \<lparr>utcnow = at_time 1 250, current_timestamp = db_time 1 100,
             gen_random_uuid = ''0a000000-0000-4000-8000-000000000001'', fault = None\<rparr>"

definition env_B :: env where
  "env_B = \<lparr>utcnow = at_time 2 250, current_timestamp = db_time 2 100,
             gen_random_uuid = ''0b000000-0000-4000-8000-000000000002'', fault = None\<rparr>"

definition change_A :: change where
  "change_A = \<lparr>ch_actor = u1, ch_action = ''CREATE'', ch_rtype = ''INVOICE'', ch_rid = inv1,
                ch_old = JNull, ch_new = JObj [(''status'', JStr ''draft'')]\<rparr>"

definition change_B :: change where
  "change_B = \<lparr>ch_actor = u1, ch_action = ''UPDATE'', ch_rtype = ''INVOICE'', ch_rid = inv1,
                ch_old = JObj [(''status'', JStr ''draft'')],
                ch_new = JObj [(''status'', JStr ''paid'')]\<rparr>"

text \<open>
  Stored rows of a chain that the verifier accepts: \<open>seal\<close> gives a row the hash that the
  verifier recomputes for it.
\<close>

definition seal :: "keyed_hash \<Rightarrow> string \<Rightarrow> audit_row \<Rightarrow> audit_row" where
  "seal hm secret_key r = r\<lparr>hash := expected_hash_of hm secret_key r\<rparr>"

definition stored_A :: audit_row where
  "stored_A = seal tag_hash demo_key
     \<lparr>log_id = ''0a000000-0000-4000-8000-000000000001'', actor_id = u1, action = ''CREATE'',
      resource_type = Some ''INVOICE'', resource_id = inv1,
      old_values = None, new_values = Some (JObj [(''status'', JStr ''draft'')]),
      previous_hash = Some ''genesis'', hash = [], created_at = Some (db_time 1 100)\<rparr>"

definition stored_B :: audit_row where
  "stored_B = seal tag_hash demo_key
     \<lparr>log_id = ''0b000000-0000-4000-8000-000000000002'', actor_id = u1, action = ''UPDATE'',
      resource_type = Some ''INVOICE'', resource_id = inv1,
      old_values = Some (JObj [(''status'', JStr ''draft'')]),
      new_values = Some (JObj [(''status'', JStr ''paid'')]),
      previous_hash = Some (hash stored_A), hash = [], created_at = Some (db_time 2 100)\<rparr>"

definition stored_C :: audit_row where
  "stored_C = seal tag_hash demo_key
     \<lparr>log_id = ''0c000000-0000-4000-8000-000000000003'', actor_id = u1, action = ''UPDATE'',
      resource_type = Some ''INVOICE'', resource_id = inv1,
      old_values = Some (JObj [(''status'', JStr ''paid'')]),
      new_values = Some (JObj [(''status'', JStr ''void'')]),
      previous_hash = Some (hash stored_B), hash = [], created_at = Some (db_time 3 100)\<rparr>"

text \<open>
  The rows that the calls for A and for B write, one after the other, into the empty table,
  and a change whose new value is the empty object.
\<close>

definition appended_A :: audit_row where
  \<open>appended_A =
     \<lparr>log_id = ''0a000000-0000-4000-8000-000000000001'', actor_id = u1, action = ''CREATE'',
      resource_type = Some ''INVOICE'', resource_id = inv1,
      old_values = None, new_values = Some (JObj [(''status'', JStr ''draft'')]),
      previous_hash = Some ''genesis'',
      hash = tag_hash demo_key
        ''genesis:{"action": "CREATE", "actor": "123e4567-e89b-12d3-a456-426614174000", "new": {"status": "draft"}, "old": null, "resource": "INVOICE:987fcdeb-51a2-43d7-9b56-243678901234", "timestamp": "2024-05-17T09:30:01.000250"}'',
      created_at = Some (db_time 1 100)\<rparr>\<close>

definition appended_B :: audit_row where
  \<open>appended_B =
     \<lparr>log_id = ''0b000000-0000-4000-8000-000000000002'', actor_id = u1, action = ''UPDATE'',
      resource_type = Some ''INVOICE'', resource_id = inv1,
      old_values = Some (JObj [(''status'', JStr ''draft'')]),
      new_values = Some (JObj [(''status'', JStr ''paid'')]),
      previous_hash = Some (hash appended_A),
      hash = tag_hash demo_key (hash appended_A @
        '':{"action": "UPDATE", "actor": "123e4567-e89b-12d3-a456-426614174000", "new": {"status": "paid"}, "old": {"status": "draft"}, "resource": "INVOICE:987fcdeb-51a2-43d7-9b56-243678901234", "timestamp": "2024-05-17T09:30:02.000250"}''),
      created_at = Some (db_time 2 100)\<rparr>\<close>

definition change_E :: change where
  "change_E = \<lparr>ch_actor = u1, ch_action = ''UPDATE'', ch_rtype = ''INVOICE'', ch_rid = inv1,
                ch_old = JObj [(''status'', JStr ''draft'')], ch_new = JObj []\<rparr>"



section \<open>Properties\<close>

lemma compute_hash_message: "compute_hash hm k prev data = hm k (message prev data)"
  by (simp add: compute_hash_def message_def)

lemma expected_hash_of_message: "expected_hash_of hm k r = hm k (row_message r)"
  by (simp add: expected_hash_of_def row_message_def compute_hash_message)

lemma verify_loop_breaks:
  "fst (verify_loop hm k logs acc running) = acc @ map (break_of hm k) (filter (row_broken hm k) logs)"
  by (induction logs arbitrary: acc running)
     (simp_all add: Let_def row_broken_def break_of_def expected_hash_of_def)

lemma verify_chain_integrity_breaks:
  "verify_chain_integrity hm k tbl =
     (filter (row_broken hm k) (order_by_created_at_asc tbl) = [],
      map (break_of hm k) (filter (row_broken hm k) (order_by_created_at_asc tbl)))"
  by (simp add: verify_chain_integrity_def Let_def verify_loop_breaks)

lemma verify_valid_iff:
  "verify_chain_integrity hm k tbl = (True, []) \<longleftrightarrow> (\<forall>r \<in> set tbl. \<not> row_broken hm k r)"
  by (auto simp: verify_chain_integrity_breaks order_by_created_at_asc_def filter_empty_conv)

subsection \<open>The text of \<^verbatim>\<open>log_data\<close>\<close>

lemma encode_keys:
  \<open>encode_str ''action'' = ''"action"''\<close> \<open>encode_str ''actor'' = ''"actor"''\<close>
  \<open>encode_str ''new'' = ''"new"''\<close> \<open>encode_str ''old'' = ''"old"''\<close>
  \<open>encode_str ''resource'' = ''"resource"''\<close> \<open>encode_str ''timestamp'' = ''"timestamp"''\<close>
  by (simp_all add: encode_str_def escape_char_def)

lemma dumps_log_data:
  \<open>json_dumps (make_log_data actor act res ts old new) =
     ''{"action": '' @ encode_str act @ '', "actor": '' @ encode_str actor @
     '', "new": '' @ json_dumps new @ '', "old": '' @ json_dumps old @
     '', "resource": '' @ encode_str res @ '', "timestamp": '' @
     (case ts of None \<Rightarrow> ''null'' | Some s \<Rightarrow> encode_str s) @ ''}''\<close>
  by (simp add: make_log_data_def encode_keys split: option.splits)

lemma falsy_dumps:
  "\<not> truthy v \<Longrightarrow> v \<noteq> JNull \<Longrightarrow> \<exists>c s. json_dumps v = c # s \<and> c \<noteq> CHR ''n''"
  by (cases v) (auto simp: dec_int_def dec_nat.simps digit_char_def encode_str_def)

lemma column_roundtrip: "truthy v \<or> v = JNull \<Longrightarrow> column_value (json_column v) = v"
  by (auto simp: column_value_def json_column_def)

lemma column_falsy: "\<not> truthy v \<Longrightarrow> column_value (json_column v) = JNull"
  by (auto simp: column_value_def json_column_def)

lemma length_isoformat: "length (isoformat t) = (if microsecond t = 0 then 19 else 26)"
  by (simp add: isoformat_def pad2_def pad4_def pad6_def)

lemma length_isoformat_aware:
  "length (isoformat_aware t) = (if microsecond t = 0 then 25 else 32)"
  by (simp add: isoformat_aware_def length_isoformat pad2_def)

lemma isoformat_differs: "isoformat t \<noteq> isoformat_aware t'"
proof
  assume "isoformat t = isoformat_aware t'"
  then have "length (isoformat t) = length (isoformat_aware t')" by simp
  then show False by (simp add: length_isoformat length_isoformat_aware split: if_splits)
qed

subsection \<open>The worked instances\<close>

lemma expected_hash_of_seal: "expected_hash_of hm k (seal hm' k' r) = expected_hash_of hm k r"
  by (simp add: expected_hash_of_def seal_def row_log_data_def)

lemma row_message_seal: "row_message (seal hm k r) = row_message r"
  by (simp add: row_message_def seal_def row_log_data_def)

lemma hash_seal: "hash (seal hm k r) = hm k (row_message r)"
  by (simp add: seal_def expected_hash_of_message)

lemma seal_not_broken: "\<not> row_broken hm k (seal hm k r)"
  by (simp add: row_broken_def expected_hash_of_seal) (simp add: seal_def)

lemma stored_not_broken:
  "\<not> row_broken tag_hash demo_key stored_A"
  "\<not> row_broken tag_hash demo_key stored_B"
  "\<not> row_broken tag_hash demo_key stored_C"
  unfolding stored_A_def stored_B_def stored_C_def by (rule seal_not_broken)+

lemma tag_hash_eq: "tag_hash k m = tag_hash k m' \<longleftrightarrow> m = m'"
  by (simp add: tag_hash_def)

lemmas eval_text = dumps_log_data encode_str_def escape_char_def isoformat_def
  isoformat_aware_def pad2_def pad4_def pad6_def digit_char_def py_str_def column_value_def
  message_def row_message_def row_log_data_def

lemma stored_A_fields:
  "log_id stored_A = ''0a000000-0000-4000-8000-000000000001''"
  "created_at stored_A = Some (db_time 1 100)"
  "previous_hash stored_A = Some ''genesis''"
  by (simp_all add: stored_A_def seal_def)

lemma stored_B_fields:
  "log_id stored_B = ''0b000000-0000-4000-8000-000000000002''"
  "created_at stored_B = Some (db_time 2 100)"
  "previous_hash stored_B = Some (hash stored_A)"
  by (simp_all add: stored_B_def seal_def)

lemma stored_C_fields:
  "log_id stored_C = ''0c000000-0000-4000-8000-000000000003''"
  "created_at stored_C = Some (db_time 3 100)"
  "previous_hash stored_C = Some (hash stored_B)"
  by (simp_all add: stored_C_def seal_def)

lemma row_message_stored_A:
  \<open>row_message stored_A =
     ''genesis:{"action": "CREATE", "actor": "123e4567-e89b-12d3-a456-426614174000", "new": {"status": "draft"}, "old": null, "resource": "INVOICE:987fcdeb-51a2-43d7-9b56-243678901234", "timestamp": "2024-05-17T09:30:01.000100+00:00"}''\<close>
  unfolding stored_A_def row_message_seal
  by (simp add: eval_text u1_def inv1_def db_time_def)

lemma row_message_stored_B:
  \<open>row_message stored_B = hash stored_A @
     '':{"action": "UPDATE", "actor": "123e4567-e89b-12d3-a456-426614174000", "new": {"status": "paid"}, "old": {"status": "draft"}, "resource": "INVOICE:987fcdeb-51a2-43d7-9b56-243678901234", "timestamp": "2024-05-17T09:30:02.000100+00:00"}''\<close>
  unfolding stored_B_def row_message_seal
  by (simp add: eval_text u1_def inv1_def db_time_def)

lemma row_message_stored_C:
  \<open>row_message stored_C = hash stored_B @
     '':{"action": "UPDATE", "actor": "123e4567-e89b-12d3-a456-426614174000", "new": {"status": "void"}, "old": {"status": "paid"}, "resource": "INVOICE:987fcdeb-51a2-43d7-9b56-243678901234", "timestamp": "2024-05-17T09:30:03.000100+00:00"}''\<close>
  unfolding stored_C_def row_message_seal
  by (simp add: eval_text u1_def inv1_def db_time_def)

lemma hash_stored_A: "hash stored_A = tag_hash demo_key (row_message stored_A)"
  by (subst (1) stored_A_def) (simp add: hash_seal stored_A_def row_message_seal)

lemma hash_stored_B: "hash stored_B = tag_hash demo_key (row_message stored_B)"
  by (subst (1) stored_B_def) (simp add: hash_seal stored_B_def row_message_seal)

lemma hash_stored_C: "hash stored_C = tag_hash demo_key (row_message stored_C)"
  by (subst (1) stored_C_def) (simp add: hash_seal stored_C_def row_message_seal)

subsection \<open>What one call of \<^verbatim>\<open>log_change\<close> does to the table\<close>

lemmas log_change_defs = log_change_def log_change_conn_def except_rollback_def rollback_def
  append_entry_def execute_insert_def commit_def insert_row_def read_tip_def

lemma log_change_conn_cases:
  assumes "log_change_conn hm k e actor act rtype rid old_val new_val tbl = (res, tx)"
  shows "view tx = server tx \<and>
         ((\<exists>err. res = Inl err \<and> err \<noteq> OperationalError AfterCommit \<and> server tx = tbl) \<or>
          ((res = Inr (gen_random_uuid e) \<or> res = Inl (OperationalError AfterCommit)) \<and>
           fits 50 act \<and> fits 50 rtype \<and>
           compute_hash hm k
             (Some (case select_latest_hash tbl of None \<Rightarrow> ''genesis'' | Some h \<Rightarrow> h))
             (make_log_data actor act (rtype @ '':'' @ rid)
                (Some (isoformat (utcnow e))) old_val new_val) \<notin> set (map hash tbl) \<and>
           server tx = tbl @
             [\<lparr>log_id = gen_random_uuid e, actor_id = actor, action = take 50 act,
               resource_type = Some (take 50 rtype), resource_id = rid,
               old_values = json_column old_val, new_values = json_column new_val,
               previous_hash =
                 Some (case select_latest_hash tbl of None \<Rightarrow> ''genesis'' | Some h \<Rightarrow> h),
               hash = compute_hash hm k
                 (Some (case select_latest_hash tbl of None \<Rightarrow> ''genesis'' | Some h \<Rightarrow> h))
                 (make_log_data actor act (rtype @ '':'' @ rid)
                    (Some (isoformat (utcnow e))) old_val new_val),
               created_at = Some (current_timestamp e)\<rparr>]))"
  using assms
  by (auto simp: log_change_conn_def except_rollback_def rollback_def append_entry_def
        execute_insert_def commit_def insert_row_def read_tip_def Let_def
      split: if_splits option.splits sum.splits prod.splits)

lemma log_change_cases:
  assumes "log_change hm k e actor act rtype rid old_val new_val tbl = (res, tbl')"
  shows "(\<exists>err. res = Inl err \<and> err \<noteq> OperationalError AfterCommit \<and> tbl' = tbl) \<or>
         (\<exists>r. (res = Inr (log_id r) \<or> res = Inl (OperationalError AfterCommit)) \<and>
              tbl' = tbl @ [r] \<and>
              hash r \<notin> set (map hash tbl) \<and> fits 50 act \<and> fits 50 rtype \<and>
              r = \<lparr>log_id = gen_random_uuid e, actor_id = actor, action = take 50 act,
                   resource_type = Some (take 50 rtype), resource_id = rid,
                   old_values = json_column old_val, new_values = json_column new_val,
                   previous_hash =
                     Some (case select_latest_hash tbl of None \<Rightarrow> ''genesis'' | Some h \<Rightarrow> h),
                   hash = compute_hash hm k
                     (Some (case select_latest_hash tbl of None \<Rightarrow> ''genesis'' | Some h \<Rightarrow> h))
                     (make_log_data actor act (rtype @ '':'' @ rid)
                        (Some (isoformat (utcnow e))) old_val new_val),
                   created_at = Some (current_timestamp e)\<rparr>)"
proof -
  obtain tx where c: "log_change_conn hm k e actor act rtype rid old_val new_val tbl = (res, tx)"
    and t: "tbl' = server tx"
    using assms by (auto simp: log_change_def split: prod.splits)
  from log_change_conn_cases [OF c] show ?thesis
    unfolding t by auto
qed

lemma call_A_succeeds:
  "fst (log_change tag_hash demo_key env_A u1 ''CREATE'' ''INVOICE'' inv1 JNull
          (JObj [(''status'', JStr ''draft'')]) []) = Inr ''0a000000-0000-4000-8000-000000000001''"
  by (simp add: log_change_defs fits_def Let_def env_A_def
        select_latest_hash_def order_by_created_at_desc_def order_by_created_at_asc_def)

lemmas eval_on_stored_A = log_change_conn_def except_rollback_def rollback_def append_entry_def
  execute_insert_def commit_def insert_row_def read_tip_def fits_def Let_def
  select_latest_hash_def order_by_created_at_desc_def order_by_created_at_asc_def
  compute_hash_message hash_stored_A tag_hash_eq stored_A_fields row_message_stored_A
  message_def py_str_def tag_hash_def demo_key_def

lemma insert_fault_fails:
  "fst (log_change_conn tag_hash demo_key (env_B\<lparr>fault := Some AtInsert\<rparr>) u1 ''UPDATE''
          ''INVOICE'' inv1 JNull JNull [stored_A]) = Inl (OperationalError AtInsert)"
  by (simp add: eval_on_stored_A env_B_def)

lemma commit_fault_fails:
  "fst (log_change_conn tag_hash demo_key (env_B\<lparr>fault := Some AtCommit\<rparr>) u1 ''UPDATE''
          ''INVOICE'' inv1 JNull JNull [stored_A]) = Inl (OperationalError AtCommit)"
  by (simp add: eval_on_stored_A env_B_def)

lemma duplicate_id_fails:
  "fst (log_change_conn tag_hash demo_key env_A u1 ''UPDATE''
          ''INVOICE'' inv1 JNull JNull [stored_A]) = Inl UniqueViolation"
  by (simp add: eval_on_stored_A env_A_def)

lemma lost_answer_raises:
  "fst (log_change_conn tag_hash demo_key (env_B\<lparr>fault := Some AfterCommit\<rparr>) u1 ''UPDATE''
          ''INVOICE'' inv1 JNull JNull [stored_A]) = Inl (OperationalError AfterCommit)"
  by (simp add: eval_on_stored_A env_B_def)

lemma lost_answer_commits:
  "length (server (snd (log_change_conn tag_hash demo_key (env_B\<lparr>fault := Some AfterCommit\<rparr>)
      u1 ''UPDATE'' ''INVOICE'' inv1 JNull JNull [stored_A]))) = 2"
  by (simp add: eval_on_stored_A env_B_def)

section \<open>The claims\<close>

text \<open>
  Claim C6 (genesis). The verifier, called on an empty table, returns valid with no broken
  link; and when a call of \<^verbatim>\<open>log_change\<close> on the empty table succeeds, the table holds
  exactly the new row, whose \<^verbatim>\<open>previous_hash\<close> is the marker \<^verbatim>\<open>genesis\<close>.
\<close>

theorem genesis_entry:
  "verify_chain_integrity hm k [] = (True, []) \<and>
   (log_change hm k e actor act rtype rid old_val new_val [] = (Inr lid, tbl') \<longrightarrow>
      (\<exists>r. tbl' = [r] \<and> log_id r = lid \<and> previous_hash r = Some ''genesis''))"
proof
  show "verify_chain_integrity hm k [] = (True, [])"
    by (simp add: verify_chain_integrity_def order_by_created_at_asc_def)
next
  show "log_change hm k e actor act rtype rid old_val new_val [] = (Inr lid, tbl') \<longrightarrow>
      (\<exists>r. tbl' = [r] \<and> log_id r = lid \<and> previous_hash r = Some ''genesis'')"
  proof
    assume a: "log_change hm k e actor act rtype rid old_val new_val [] = (Inr lid, tbl')"
    from log_change_cases [OF a]
    show "\<exists>r. tbl' = [r] \<and> log_id r = lid \<and> previous_hash r = Some ''genesis''"
      by (auto simp: select_latest_hash_def order_by_created_at_desc_def
            order_by_created_at_asc_def)
  qed
qed

theorem genesis_entry_witness:
  "\<exists>r. snd (log_change tag_hash demo_key env_A u1 ''CREATE'' ''INVOICE'' inv1 JNull
              (JObj [(''status'', JStr ''draft'')]) []) = [r]
      \<and> log_id r = ''0a000000-0000-4000-8000-000000000001''
      \<and> previous_hash r = Some ''genesis''"
proof -
  have "log_change tag_hash demo_key env_A u1 ''CREATE'' ''INVOICE'' inv1 JNull
          (JObj [(''status'', JStr ''draft'')]) []
        = (Inr ''0a000000-0000-4000-8000-000000000001'',
           snd (log_change tag_hash demo_key env_A u1 ''CREATE'' ''INVOICE'' inv1 JNull
                  (JObj [(''status'', JStr ''draft'')]) []))"
    using call_A_succeeds by (simp add: prod_eq_iff)
  with genesis_entry show ?thesis by blast
qed

text \<open>
  Claim C9 (atomicity). Whatever a call of \<^verbatim>\<open>log_change\<close> returns, its connection is
  left with nothing uncommitted, and the table as committed is either the table as it was or
  the table with the one whole new row at its end, never anything between. When the call
  fails before the server has committed, at the SELECT, at the INSERT or at the commit, the
  table is as it was. When the call returns an id, the row is committed.
\<close>

theorem log_change_all_or_nothing:
  assumes "log_change_conn hm k e actor act rtype rid old_val new_val tbl = (res, tx)"
  shows "log_change hm k e actor act rtype rid old_val new_val tbl = (res, server tx) \<and>
         view tx = server tx \<and>
         (\<forall>err. res = Inl err \<and> err \<noteq> OperationalError AfterCommit \<longrightarrow> server tx = tbl) \<and>
         (server tx = tbl \<or>
          server tx = tbl @
            [\<lparr>log_id = gen_random_uuid e, actor_id = actor, action = take 50 act,
              resource_type = Some (take 50 rtype), resource_id = rid,
              old_values = json_column old_val, new_values = json_column new_val,
              previous_hash =
                Some (case select_latest_hash tbl of None \<Rightarrow> ''genesis'' | Some h \<Rightarrow> h),
              hash = compute_hash hm k
                (Some (case select_latest_hash tbl of None \<Rightarrow> ''genesis'' | Some h \<Rightarrow> h))
                (make_log_data actor act (rtype @ '':'' @ rid)
                   (Some (isoformat (utcnow e))) old_val new_val),
              created_at = Some (current_timestamp e)\<rparr>]) \<and>
         (\<forall>new_id. res = Inr new_id \<longrightarrow> new_id = gen_random_uuid e \<and> server tx \<noteq> tbl)"
proof -
  have "log_change hm k e actor act rtype rid old_val new_val tbl = (res, server tx)"
    using assms by (simp add: log_change_def)
  with log_change_conn_cases [OF assms] show ?thesis by auto
qed

theorem log_change_all_or_nothing_witness:
  "log_change tag_hash demo_key (env_B\<lparr>fault := Some AtInsert\<rparr>) u1 ''UPDATE'' ''INVOICE''
     inv1 JNull JNull [stored_A] = (Inl (OperationalError AtInsert), [stored_A]) \<and>
   log_change tag_hash demo_key (env_B\<lparr>fault := Some AtCommit\<rparr>) u1 ''UPDATE'' ''INVOICE''
     inv1 JNull JNull [stored_A] = (Inl (OperationalError AtCommit), [stored_A]) \<and>
   log_change tag_hash demo_key env_A u1 ''UPDATE'' ''INVOICE''
     inv1 JNull JNull [stored_A] = (Inl UniqueViolation, [stored_A]) \<and>
   fst (log_change tag_hash demo_key (env_B\<lparr>fault := Some AfterCommit\<rparr>) u1 ''UPDATE''
     ''INVOICE'' inv1 JNull JNull [stored_A]) = Inl (OperationalError AfterCommit) \<and>
   length (snd (log_change tag_hash demo_key (env_B\<lparr>fault := Some AfterCommit\<rparr>) u1 ''UPDATE''
     ''INVOICE'' inv1 JNull JNull [stored_A])) = 2"
proof -
  have unchanged: "log_change tag_hash demo_key e u1 ''UPDATE'' ''INVOICE'' inv1 JNull JNull
                     [stored_A] = (Inl err, [stored_A])"
    if "fst (log_change_conn tag_hash demo_key e u1 ''UPDATE'' ''INVOICE'' inv1 JNull JNull
               [stored_A]) = Inl err" and "err \<noteq> OperationalError AfterCommit" for e err
  proof -
    obtain res tx where h:
      "log_change_conn tag_hash demo_key e u1 ''UPDATE'' ''INVOICE'' inv1 JNull JNull
         [stored_A] = (res, tx)"
      by force
    with that have "res = Inl err" by simp
    with log_change_all_or_nothing [OF h] that(2) show ?thesis by simp
  qed
  obtain res tx where h:
    "log_change_conn tag_hash demo_key (env_B\<lparr>fault := Some AfterCommit\<rparr>) u1 ''UPDATE''
       ''INVOICE'' inv1 JNull JNull [stored_A] = (res, tx)"
    by force
  with lost_answer_raises have r: "res = Inl (OperationalError AfterCommit)" by simp
  from h lost_answer_commits have "length (server tx) = 2"
    by simp
  with log_change_all_or_nothing [OF h] r
  have "fst (log_change tag_hash demo_key (env_B\<lparr>fault := Some AfterCommit\<rparr>) u1 ''UPDATE''
          ''INVOICE'' inv1 JNull JNull [stored_A]) = Inl (OperationalError AfterCommit) \<and>
        length (snd (log_change tag_hash demo_key (env_B\<lparr>fault := Some AfterCommit\<rparr>) u1
          ''UPDATE'' ''INVOICE'' inv1 JNull JNull [stored_A])) = 2"
    by auto
  with unchanged [OF insert_fault_fails] unchanged [OF commit_fault_fails]
    unchanged [OF duplicate_id_fails]
  show ?thesis by simp
qed

subsection \<open>Sorting a table whose rows keep their \<^verbatim>\<open>created_at\<close>\<close>





lemma asc_AC: "order_by_created_at_asc [stored_A, stored_C] = [stored_A, stored_C]"
  by (simp add: order_by_created_at_asc_def stored_A_fields stored_B_fields stored_C_fields
      created_key_def instant_def db_time_def days_from_civil_def)

lemma valid_ABC:
  "verify_chain_integrity tag_hash demo_key [stored_A, stored_B, stored_C] = (True, [])"
  by (simp add: verify_valid_iff stored_not_broken)



text \<open>
  Claim C7 (the verdict depends on the row alone). The running \<^verbatim>\<open>previous_hash\<close> of the
  loop has no effect on the list of broken links; the list is, in chain order, one entry for
  each row whose own columns fail the comparison; and when the verifier accepts a table, it
  accepts every table obtained from it by deleting rows.
\<close>

theorem verdict_from_own_row:
  "fst (verify_loop hm k logs acc running) = fst (verify_loop hm k logs acc running') \<and>
   snd (verify_chain_integrity hm k tbl) =
     map (break_of hm k) (filter (row_broken hm k) (order_by_created_at_asc tbl)) \<and>
   (verify_chain_integrity hm k tbl = (True, []) \<longrightarrow>
      verify_chain_integrity hm k (filter P tbl) = (True, []))"
proof (intro conjI)
  show "fst (verify_loop hm k logs acc running) = fst (verify_loop hm k logs acc running')"
    by (simp add: verify_loop_breaks)
  show "snd (verify_chain_integrity hm k tbl) =
     map (break_of hm k) (filter (row_broken hm k) (order_by_created_at_asc tbl))"
    by (simp add: verify_chain_integrity_breaks)
  show "verify_chain_integrity hm k tbl = (True, []) \<longrightarrow>
      verify_chain_integrity hm k (filter P tbl) = (True, [])"
    by (simp add: verify_valid_iff)
qed

theorem verdict_from_own_row_witness:
  "verify_chain_integrity tag_hash demo_key [stored_A, stored_B, stored_C] = (True, []) \<and>
   verify_chain_integrity tag_hash demo_key [stored_A, stored_C] = (True, [])"
proof -
  have "filter (\<lambda>r. log_id r \<noteq> log_id stored_B) [stored_A, stored_B, stored_C]
        = [stored_A, stored_C]"
    by (simp add: stored_A_fields stored_B_fields stored_C_fields)
  with verdict_from_own_row [of tag_hash demo_key "[]" "[]" "[]" "[]"
         "[stored_A, stored_B, stored_C]" "\<lambda>r. log_id r \<noteq> log_id stored_B"] valid_ABC
  show ?thesis by simp
qed

subsection \<open>The verifier of the code and the verifier of the specification\<close>

lemma spec_verify_loop_linked:
  "linked_from (Some running) logs \<Longrightarrow>
   spec_verify_loop hm k logs acc running = fst (verify_loop hm k logs acc running')"
  by (induction logs arbitrary: acc running running') (simp_all add: Let_def)

lemma spec_verify_agrees:
  assumes "linked_from (Some ''genesis'') (order_by_created_at_asc tbl)"
  shows "spec_verify hm k tbl = verify_chain_integrity hm k tbl"
proof (cases "order_by_created_at_asc tbl = []")
  case True
  then show ?thesis
    by (simp add: spec_verify_def verify_chain_integrity_def)
next
  case False
  with spec_verify_loop_linked [OF assms, of hm k "[]" "''genesis''"] show ?thesis
    by (simp add: spec_verify_def verify_chain_integrity_def Let_def)
qed

text \<open>
  Claim C3 (the verifier's algorithm). The claim has the expected link computed from the
  running link. The code computes it from the row's own column \<^verbatim>\<open>previous_hash\<close> and
  never reads the running link; the two verifiers agree on the tables in which the first row
  carries the genesis marker and every other row the stored hash of the row before it
  (\<open>spec_verify_agrees\<close>). The table below holds the rows A and C of the accepted chain A, B,
  C: the row C still carries the hash of the deleted row B. The code accepts the table; the
  algorithm of the claim reports C, with the hash computed from the stored hash of A as the
  expected link.
\<close>

theorem verifier_ignores_running_link:
  "verify_chain_integrity tag_hash demo_key [stored_A, stored_C] = (True, []) \<and>
   previous_hash stored_C = Some (hash stored_B) \<and> hash stored_B \<noteq> hash stored_A \<and>
   spec_verify tag_hash demo_key [stored_A, stored_C] =
     (False, [\<lparr>link_id = log_id stored_C,
               expected = compute_hash tag_hash demo_key (Some (hash stored_A))
                            (row_log_data stored_C),
               found = hash stored_C\<rparr>])"
proof -
  have 1: "verify_chain_integrity tag_hash demo_key [stored_A, stored_C] = (True, [])"
    by (simp add: verify_valid_iff stored_not_broken)
  have 2: "hash stored_B \<noteq> hash stored_A"
    by (simp add: hash_stored_A hash_stored_B tag_hash_eq row_message_stored_A
          row_message_stored_B tag_hash_def demo_key_def)
  have a: "compute_hash tag_hash demo_key (Some ''genesis'') (row_log_data stored_A)
             = hash stored_A"
    using stored_not_broken(1) by (simp add: row_broken_def expected_hash_of_def stored_A_fields)
  have "compute_hash tag_hash demo_key (Some (hash stored_B)) (row_log_data stored_C)
          = hash stored_C"
    using stored_not_broken(3) by (simp add: row_broken_def expected_hash_of_def stored_C_fields)
  then have "compute_hash tag_hash demo_key (Some (hash stored_A)) (row_log_data stored_C)
               = hash stored_C
      \<longleftrightarrow> compute_hash tag_hash demo_key (Some (hash stored_A)) (row_log_data stored_C)
        = compute_hash tag_hash demo_key (Some (hash stored_B)) (row_log_data stored_C)"
    by simp
  with 2 have c: "compute_hash tag_hash demo_key (Some (hash stored_A)) (row_log_data stored_C)
                    \<noteq> hash stored_C"
    by (simp add: compute_hash_message tag_hash_eq message_def py_str_def)
  show ?thesis
    using 1 2 a c by (simp add: spec_verify_def asc_AC Let_def stored_C_fields)
qed

subsection \<open>The scenario, evaluated\<close>

lemmas eval_call = call_def log_change_defs fits_def
  Let_def select_latest_hash_def order_by_created_at_desc_def order_by_created_at_asc_def
  compute_hash_message json_column_def

lemma call_A:
  "call tag_hash demo_key env_A change_A [] =
     (Inr ''0a000000-0000-4000-8000-000000000001'', [appended_A])"
  by (simp add: eval_call env_A_def change_A_def appended_A_def eval_text u1_def inv1_def at_time_def)

lemma appended_A_fields:
  "log_id appended_A = ''0a000000-0000-4000-8000-000000000001''"
  "created_at appended_A = Some (db_time 1 100)"
  "previous_hash appended_A = Some ''genesis''"
  by (simp_all add: appended_A_def)

lemma call_B:
  "call tag_hash demo_key env_B change_B [appended_A] =
     (Inr ''0b000000-0000-4000-8000-000000000002'', [appended_A, appended_B])"
  apply (simp add: eval_call env_B_def change_B_def appended_B_def eval_text u1_def inv1_def at_time_def appended_A_fields tag_hash_eq)
  apply (simp add: appended_A_def tag_hash_eq tag_hash_def demo_key_def)
  done

subsection \<open>The text hashed at append and the text hashed at verification\<close>

lemma digit_char_in: "digit_char n \<in> set ''0123456789''"
proof -
  have "n mod 10 < length ''0123456789''" by simp
  then show ?thesis unfolding digit_char_def by (rule nth_mem)
qed

lemma escape_digit: "escape_char (digit_char n) = [digit_char n]"
  using digit_char_in [of n] by (auto simp: escape_char_def)

lemma escape_pad2: "concat (map escape_char (pad2 n)) = pad2 n"
  by (simp add: pad2_def escape_digit)

lemma escape_pad4: "concat (map escape_char (pad4 n)) = pad4 n"
  by (simp add: pad4_def escape_pad2)

lemma escape_pad6: "concat (map escape_char (pad6 n)) = pad6 n"
  by (simp add: pad6_def escape_pad2 escape_pad4)

lemma escape_isoformat: "concat (map escape_char (isoformat t)) = isoformat t"
  by (simp add: isoformat_def escape_pad2 escape_pad4 escape_pad6) (simp add: escape_char_def)

lemma escape_isoformat_aware: "concat (map escape_char (isoformat_aware t)) = isoformat_aware t"
  by (simp add: isoformat_aware_def escape_isoformat escape_pad2) (simp add: escape_char_def)

lemma encode_isoformat_differs: "encode_str (isoformat_aware t') \<noteq> encode_str (isoformat t)"
  using isoformat_differs [of t t']
  by (auto simp: encode_str_def escape_isoformat escape_isoformat_aware)

lemma falsy_changes_text:
  assumes "(\<not> truthy new \<and> new \<noteq> JNull) \<or> (\<not> truthy old \<and> old \<noteq> JNull)"
  shows "json_dumps (make_log_data a b c' ts' (column_value (json_column old))
                       (column_value (json_column new)))
         \<noteq> json_dumps (make_log_data a b c ts old new)"
proof (cases "\<not> truthy new \<and> new \<noteq> JNull")
  case True
  then obtain ch s where "json_dumps new = ch # s" "ch \<noteq> CHR ''n''"
    using falsy_dumps by blast
  with True show ?thesis
    by (auto simp: dumps_log_data column_falsy)
next
  case False
  then have new: "column_value (json_column new) = new"
    by (intro column_roundtrip) auto
  from False assms have old: "\<not> truthy old" "old \<noteq> JNull" by auto
  then obtain ch s where "json_dumps old = ch # s" "ch \<noteq> CHR ''n''"
    using falsy_dumps by blast
  with old new show ?thesis
    by (auto simp: dumps_log_data column_falsy)
qed

text \<open>A text that was stored cut: what was cut off starts with a space.\<close>

lemma cut_text:
  assumes "fits n s" and "take n s \<noteq> s"
  shows "\<exists>sp. s = take n s @ CHR '' '' # sp"
proof -
  from assms(2) have "drop n s \<noteq> []" by (metis append_Nil2 append_take_drop_id)
  then obtain c sp where d: "drop n s = c # sp" by (cases "drop n s") auto
  with assms(1) have "c = CHR '' ''" by (simp add: fits_def)
  with d have "take n s @ CHR '' '' # sp = s" by (metis append_take_drop_id)
  then show ?thesis by metis
qed

lemma cut_action_changes_text:
  "json_dumps (make_log_data a t c' ts' old' new')
   \<noteq> json_dumps (make_log_data a (t @ CHR '' '' # sp) c ts old new)"
  by (simp add: dumps_log_data encode_str_def escape_char_def)

lemma cut_resource_changes_text:
  "json_dumps (make_log_data a b (t @ '':'' @ rid) ts' old new)
   \<noteq> json_dumps (make_log_data a b ((t @ CHR '' '' # sp) @ '':'' @ rid) ts old new)"
  by (simp add: dumps_log_data encode_str_def escape_char_def)

lemma fresh_text_differs:
  assumes "fits 50 act" and "fits 50 rtype"
  shows "json_dumps (make_log_data a (take 50 act) (take 50 rtype @ '':'' @ rid)
            (Some (isoformat_aware t')) (column_value (json_column old))
            (column_value (json_column new)))
         \<noteq> json_dumps (make_log_data a act (rtype @ '':'' @ rid) (Some (isoformat t)) old new)"
proof (cases "take 50 act = act")
  case False
  with assms(1) obtain sp where "act = take 50 act @ CHR '' '' # sp"
    using cut_text by blast
  then show ?thesis
    using cut_action_changes_text by metis
next
  case act: True
  show ?thesis
  proof (cases "(\<not> truthy new \<and> new \<noteq> JNull) \<or> (\<not> truthy old \<and> old \<noteq> JNull)")
    case True
    then show ?thesis unfolding act by (rule falsy_changes_text)
  next
    case False
    then have same: "column_value (json_column new) = new" "column_value (json_column old) = old"
      by (auto intro: column_roundtrip)
    show ?thesis
    proof (cases "take 50 rtype = rtype")
      case True
      then show ?thesis
        by (simp add: act same dumps_log_data encode_isoformat_differs)
    next
      case False
      with assms(2) obtain sp where "rtype = take 50 rtype @ CHR '' '' # sp"
        using cut_text by blast
      then show ?thesis
        unfolding act same using cut_resource_changes_text by metis
    qed
  qed
qed

lemma falsy_text_differs:
  assumes "fits 50 act"
    and "(\<not> truthy new \<and> new \<noteq> JNull) \<or> (\<not> truthy old \<and> old \<noteq> JNull)"
  shows "json_dumps (make_log_data a (take 50 act) c' ts' (column_value (json_column old))
            (column_value (json_column new)))
         \<noteq> json_dumps (make_log_data a act c ts old new)"
proof (cases "take 50 act = act")
  case False
  with assms(1) obtain sp where "act = take 50 act @ CHR '' '' # sp"
    using cut_text by blast
  then show ?thesis
    using cut_action_changes_text by metis
next
  case True
  show ?thesis unfolding True using assms(2) by (rule falsy_changes_text)
qed

lemma broken_row_reported:
  assumes "r \<in> set tbl" and "row_broken hm k r"
  shows "fst (verify_chain_integrity hm k tbl) = False \<and>
         break_of hm k r \<in> set (snd (verify_chain_integrity hm k tbl))"
  using assms
  by (auto simp: verify_chain_integrity_breaks order_by_created_at_asc_def filter_empty_conv)

lemma appended_row_facts:
  assumes ok: "log_change hm k e actor act rtype rid old_val new_val tbl = (Inr lid, tbl')"
  shows "\<exists>r m. tbl' = tbl @ [r] \<and> log_id r = lid \<and>
           m = message (previous_hash r)
                 (make_log_data actor act (rtype @ '':'' @ rid) (Some (isoformat (utcnow e)))
                    old_val new_val) \<and>
           hash r = hm k m \<and> row_message r \<noteq> m \<and>
           (separates hm k (row_message r) m \<longrightarrow>
              fst (verify_chain_integrity hm k tbl') = False \<and>
              \<lparr>link_id = lid, expected = hm k (row_message r), found = hm k m\<rparr>
                \<in> set (snd (verify_chain_integrity hm k tbl')))"
proof -
  from log_change_cases [OF ok] obtain r where r: "lid = log_id r" "tbl' = tbl @ [r]"
    "fits 50 act" "fits 50 rtype"
    "r = \<lparr>log_id = gen_random_uuid e, actor_id = actor, action = take 50 act,
          resource_type = Some (take 50 rtype), resource_id = rid,
          old_values = json_column old_val, new_values = json_column new_val,
          previous_hash = Some (case select_latest_hash tbl of None \<Rightarrow> ''genesis'' | Some h \<Rightarrow> h),
          hash = compute_hash hm k
            (Some (case select_latest_hash tbl of None \<Rightarrow> ''genesis'' | Some h \<Rightarrow> h))
            (make_log_data actor act (rtype @ '':'' @ rid)
               (Some (isoformat (utcnow e))) old_val new_val),
          created_at = Some (current_timestamp e)\<rparr>"
    by auto
  let ?m = "message (previous_hash r)
              (make_log_data actor act (rtype @ '':'' @ rid) (Some (isoformat (utcnow e)))
                 old_val new_val)"
  have h: "hash r = hm k ?m"
    by (subst (1 2) r(5)) (simp add: compute_hash_message)
  have d: "row_message r \<noteq> ?m"
    using fresh_text_differs [OF r(3,4)]
    by (subst (1 2) r(5))
       (simp add: row_message_def message_def row_log_data_def py_str_def)
  have "separates hm k (row_message r) ?m \<longrightarrow>
              fst (verify_chain_integrity hm k tbl') = False \<and>
              \<lparr>link_id = lid, expected = hm k (row_message r), found = hm k ?m\<rparr>
                \<in> set (snd (verify_chain_integrity hm k tbl'))"
  proof
    assume "separates hm k (row_message r) ?m"
    with d h have "row_broken hm k r"
      by (simp add: separates_def row_broken_def expected_hash_of_message)
    moreover have "r \<in> set tbl'" using r(2) by simp
    ultimately show "fst (verify_chain_integrity hm k tbl') = False \<and>
              \<lparr>link_id = lid, expected = hm k (row_message r), found = hm k ?m\<rparr>
                \<in> set (snd (verify_chain_integrity hm k tbl'))"
      using broken_row_reported [of r tbl' hm k] h r(1)
      by (simp add: break_of_def expected_hash_of_message)
  qed
  with r(1,2) h d show ?thesis by blast
qed

lemma appended_B_fields:
  "log_id appended_B = ''0b000000-0000-4000-8000-000000000002''"
  "created_at appended_B = Some (db_time 2 100)"
  "previous_hash appended_B = Some (hash appended_A)"
  by (simp_all add: appended_B_def)

lemma appended_broken:
  "row_broken tag_hash demo_key appended_A" "row_broken tag_hash demo_key appended_B"
  by (simp_all add: row_broken_def expected_hash_of_message appended_A_def appended_B_def
        tag_hash_eq eval_text u1_def inv1_def db_time_def)

lemma asc_appended: "order_by_created_at_asc [appended_A, appended_B] = [appended_A, appended_B]"
  by (simp add: order_by_created_at_asc_def appended_A_fields appended_B_fields
      created_key_def instant_def db_time_def days_from_civil_def)

text \<open>
  Claim C1 (append, then verify). The claim does not hold of the code. The hash of a new row
  is taken over the clock of the Python process, \<^verbatim>\<open>datetime.utcnow().isoformat()\<close>,
  which is not stored; the verifier takes it over the column \<^verbatim>\<open>created_at\<close>, the
  database's own aware timestamp. The two texts differ for every call, so the verifier
  reports the new row unless the keyed hash collides on them. The instance after the theorem
  is the scenario of the specification: A links to the marker, B links to A, and both are
  reported.
\<close>

theorem fresh_entry_reported_broken:
  assumes ok: "log_change hm k e actor act rtype rid old_val new_val tbl = (Inr lid, tbl')"
  shows "\<exists>r m. tbl' = tbl @ [r] \<and> log_id r = lid \<and>
           m = message (previous_hash r)
                 (make_log_data actor act (rtype @ '':'' @ rid) (Some (isoformat (utcnow e)))
                    old_val new_val) \<and>
           hash r = hm k m \<and> row_message r \<noteq> m \<and>
           (separates hm k (row_message r) m \<longrightarrow>
              fst (verify_chain_integrity hm k tbl') = False \<and>
              \<lparr>link_id = lid, expected = hm k (row_message r), found = hm k m\<rparr>
                \<in> set (snd (verify_chain_integrity hm k tbl')))"
  using appended_row_facts [OF ok] .

theorem fresh_entry_reported_broken_witness:
  "call tag_hash demo_key env_A change_A [] =
     (Inr ''0a000000-0000-4000-8000-000000000001'', [appended_A]) \<and>
   call tag_hash demo_key env_B change_B [appended_A] =
     (Inr ''0b000000-0000-4000-8000-000000000002'', [appended_A, appended_B]) \<and>
   previous_hash appended_A = Some ''genesis'' \<and>
   previous_hash appended_B = Some (hash appended_A) \<and>
   fst (verify_chain_integrity tag_hash demo_key [appended_A, appended_B]) = False \<and>
   map link_id (snd (verify_chain_integrity tag_hash demo_key [appended_A, appended_B])) =
     [''0a000000-0000-4000-8000-000000000001'', ''0b000000-0000-4000-8000-000000000002'']"
proof -
  have ok: "log_change tag_hash demo_key env_B (ch_actor change_B) (ch_action change_B)
              (ch_rtype change_B) (ch_rid change_B) (ch_old change_B) (ch_new change_B)
              [appended_A] = (Inr ''0b000000-0000-4000-8000-000000000002'', [appended_A, appended_B])"
    using call_B by (simp add: call_def)
  from fresh_entry_reported_broken [OF ok]
  have "fst (verify_chain_integrity tag_hash demo_key [appended_A, appended_B]) = False"
    by (auto simp: separates_def tag_hash_eq)
  moreover have "map link_id (snd (verify_chain_integrity tag_hash demo_key [appended_A, appended_B])) =
     [''0a000000-0000-4000-8000-000000000001'', ''0b000000-0000-4000-8000-000000000002'']"
    by (simp add: verify_chain_integrity_breaks asc_appended appended_broken break_of_def
          appended_A_fields appended_B_fields)
  ultimately show ?thesis
    using call_A call_B by (simp add: appended_A_fields appended_B_fields)
qed

text \<open>
  Claim C8 (falsy values). When \<^verbatim>\<open>old_val\<close> or \<^verbatim>\<open>new_val\<close> is falsy without being
  \<^verbatim>\<open>None\<close>, a successful call hashes the value as given and stores NULL in its column.
  The text the verifier builds from the stored row then differs from the hashed text
  whatever the timestamp it uses, and the verifier reports the row, the keyed hash having no
  collision on the two texts.
\<close>

theorem falsy_value_stored_as_null:
  assumes falsy: "(\<not> truthy new_val \<and> new_val \<noteq> JNull) \<or> (\<not> truthy old_val \<and> old_val \<noteq> JNull)"
    and ok: "log_change hm k e actor act rtype rid old_val new_val tbl = (Inr lid, tbl')"
  shows "\<exists>r m. tbl' = tbl @ [r] \<and> log_id r = lid \<and>
           m = message (previous_hash r)
                 (make_log_data actor act (rtype @ '':'' @ rid) (Some (isoformat (utcnow e)))
                    old_val new_val) \<and>
           hash r = hm k m \<and>
           (\<not> truthy new_val \<longrightarrow> new_values r = None) \<and>
           (\<not> truthy old_val \<longrightarrow> old_values r = None) \<and>
           (\<forall>ts. message (previous_hash r)
                   (make_log_data (actor_id r) (action r)
                      (py_str (resource_type r) @ '':'' @ resource_id r) ts
                      (column_value (old_values r)) (column_value (new_values r))) \<noteq> m) \<and>
           (separates hm k (row_message r) m \<longrightarrow>
              fst (verify_chain_integrity hm k tbl') = False \<and>
              \<lparr>link_id = lid, expected = hm k (row_message r), found = hm k m\<rparr>
                \<in> set (snd (verify_chain_integrity hm k tbl')))"
proof -
  from appended_row_facts [OF ok] obtain r m where r:
    "tbl' = tbl @ [r]" "log_id r = lid"
    "m = message (previous_hash r)
           (make_log_data actor act (rtype @ '':'' @ rid) (Some (isoformat (utcnow e)))
              old_val new_val)"
    "hash r = hm k m"
    "separates hm k (row_message r) m \<longrightarrow>
       fst (verify_chain_integrity hm k tbl') = False \<and>
       \<lparr>link_id = lid, expected = hm k (row_message r), found = hm k m\<rparr>
         \<in> set (snd (verify_chain_integrity hm k tbl'))"
    by blast
  from log_change_cases [OF ok] r(1) have cols:
    "old_values r = json_column old_val" "new_values r = json_column new_val"
    "actor_id r = actor" "action r = take 50 act" "resource_type r = Some (take 50 rtype)"
    "resource_id r = rid" "fits 50 act"
    by auto
  have "\<forall>ts. message (previous_hash r)
                   (make_log_data (actor_id r) (action r)
                      (py_str (resource_type r) @ '':'' @ resource_id r) ts
                      (column_value (old_values r)) (column_value (new_values r))) \<noteq> m"
    using falsy_text_differs [OF cols(7) falsy]
    by (simp add: cols r(3) message_def py_str_def)
  moreover have "\<not> truthy new_val \<longrightarrow> new_values r = None"
    and "\<not> truthy old_val \<longrightarrow> old_values r = None"
    by (simp_all add: cols json_column_def)
  ultimately show ?thesis using r by blast
qed

lemma call_E_succeeds:
  "fst (call tag_hash demo_key env_A change_E []) = Inr ''0a000000-0000-4000-8000-000000000001''"
  by (simp add: eval_call env_A_def change_E_def)

theorem falsy_value_stored_as_null_witness:
  "\<exists>r. snd (call tag_hash demo_key env_A change_E []) = [r] \<and> new_values r = None \<and>
       fst (verify_chain_integrity tag_hash demo_key [r]) = False"
proof -
  have ok: "log_change tag_hash demo_key env_A (ch_actor change_E) (ch_action change_E)
              (ch_rtype change_E) (ch_rid change_E) (ch_old change_E) (ch_new change_E) [] =
            (Inr ''0a000000-0000-4000-8000-000000000001'',
             snd (call tag_hash demo_key env_A change_E []))"
    using call_E_succeeds by (simp add: call_def prod_eq_iff)
  have falsy: "(\<not> truthy (ch_new change_E) \<and> ch_new change_E \<noteq> JNull) \<or>
               (\<not> truthy (ch_old change_E) \<and> ch_old change_E \<noteq> JNull)"
    by (simp add: change_E_def)
  from falsy_value_stored_as_null [OF falsy ok] show ?thesis
    by (auto simp: separates_def tag_hash_eq change_E_def)
qed

subsection \<open>Appending a row that is later than all others\<close>











subsection \<open>Forks\<close>












subsection \<open>The history query\<close>



text \<open>Every descending order of the rows is the result for some order of reading them.\<close>

lemma desc_order_general:
  assumes "sorted (rev (map (\<lambda>r. created_key (created_at r)) full))"
  shows "order_by_created_at_desc (\<lambda>rows. rev full) rows = full"
proof -
  have "sorted (map (\<lambda>r. created_key (created_at r)) (rev full))"
    using assms by (simp add: rev_map)
  then have "sort_key (\<lambda>r. created_key (created_at r)) (rev full) = rev full"
    by (rule sort_key_id_if_sorted)
  then show ?thesis
    by (simp add: order_by_created_at_desc_def order_by_created_at_asc_def)
qed






end
